theory Spec2Isabelle
  imports Complex_Main "HOL-Library.Word" "HOL-Library.AList"
begin

section \<open>Resilient decompressor (src/ingestion/data_downloader.py)\<close>

text \<open>
  The two functions \<^verbatim>\<open>decompress_lzma\<close> and \<^verbatim>\<open>download_and_decompress\<close> drive an
  \<^verbatim>\<open>lzma.LZMADecompressor\<close> object of the Python standard library. The LZMA codec is not
  part of the repository, so one decompressor call is a parameter \<open>dec\<close> of the model:
  \<open>dec data\<close> is what \<^verbatim>\<open>decomp.decompress(data)\<close> does on a fresh decompressor, either
  raising \<^verbatim>\<open>LZMAError\<close> or returning the decoded bytes together with the two attributes
  the source reads afterwards, \<^verbatim>\<open>unused_data\<close> and \<^verbatim>\<open>eof\<close>.
\<close>

type_synonym byte = "8 word"
type_synonym bytes = "byte list"

datatype lzma_error = LZMAError string

record decomp =
  res :: bytes
  unused_data :: bytes
  eof :: bool

type_synonym decompressor = "bytes \<Rightarrow> lzma_error + decomp"

text \<open>
  The loop of \<^verbatim>\<open>decompress_lzma\<close>, with the local variables \<^verbatim>\<open>results\<close> (a list of byte
  strings: \<^verbatim>\<open>if results:\<close> tests that the list is non-empty, not that the bytes are) and
  \<^verbatim>\<open>data\<close>. The loop has no bound of its own, so not returning is the value \<open>None\<close>.
\<close>

partial_function (option) decompress_lzma_loop ::
  "decompressor \<Rightarrow> bytes list \<Rightarrow> bytes \<Rightarrow> (lzma_error + bytes) option" where
  "decompress_lzma_loop dec results data =
     (case dec data of
        Inl e \<Rightarrow> if results \<noteq> [] then Some (Inr (concat results)) else Some (Inl e)
      | Inr d \<Rightarrow>
          (if unused_data d = [] then Some (Inr (concat (results @ [res d])))
           else if \<not> eof d then
             Some (Inl (LZMAError ''Compressed data ended before the end-of-stream marker''))
           else decompress_lzma_loop dec (results @ [res d]) (unused_data d)))"

definition decompress_lzma :: "decompressor \<Rightarrow> bytes \<Rightarrow> (lzma_error + bytes) option" where
  "decompress_lzma dec data = decompress_lzma_loop dec [] data"

text \<open>
  Python's slice \<^verbatim>\<open>byt[:n]\<close>: a negative \<open>n\<close> counts from the end, and every bound is
  clamped to the buffer.
\<close>

definition py_prefix :: "'a list \<Rightarrow> int \<Rightarrow> 'a list" where
  "py_prefix xs n = (if 0 \<le> n then take (nat n) xs else take (length xs - nat (- n)) xs)"

text \<open>
  Lines 76 to 83 of \<^verbatim>\<open>download_and_decompress\<close>: try the first \<open>len\<close> bytes, and on
  \<^verbatim>\<open>LZMAError\<close> decrement \<open>len\<close> and try again. The loop returns its state at the
  \<^verbatim>\<open>break\<close>: the length that decoded and the decoded bytes.
\<close>

partial_function (option) shrink_retry :: "decompressor \<Rightarrow> bytes \<Rightarrow> int \<Rightarrow> (int \<times> bytes) option" where
  "shrink_retry dec byt len =
     Option.bind (decompress_lzma dec (py_prefix byt len))
       (\<lambda>r. case r of
          Inr decompressed_bytes \<Rightarrow> Some (len, decompressed_bytes)
        | Inl e \<Rightarrow> shrink_retry dec byt (len - 1))"

definition download_and_decompress :: "decompressor \<Rightarrow> bytes \<Rightarrow> bytes option" where
  "download_and_decompress dec byt = map_option snd (shrink_retry dec byt (int (length byt)))"

text \<open>
  A small concrete decompressor with the interface of \<^verbatim>\<open>LZMADecompressor.decompress\<close>, for
  running the two loops on concrete buffers. A frame is the byte \<open>0x53\<close>, a length byte
  \<open>n\<close> and \<open>n\<close> payload bytes. As the library does, it returns nothing on an empty buffer
  or an incomplete header, returns the payload decoded so far (with \<open>eof\<close> false) on a
  truncated frame, sets \<open>eof\<close> and leaves the rest in \<open>unused_data\<close> after a complete
  frame, and raises on a buffer that does not start like a frame.
\<close>

definition stored_dec :: decompressor where
  "stored_dec data =
     (case data of
        [] \<Rightarrow> Inr \<lparr>res = [], unused_data = [], eof = False\<rparr>
      | m # hdr \<Rightarrow>
          if m \<noteq> 0x53 then Inl (LZMAError ''Input format not supported by decoder'')
          else (case hdr of
                  [] \<Rightarrow> Inr \<lparr>res = [], unused_data = [], eof = False\<rparr>
                | n # body \<Rightarrow>
                    if length body < unat n
                    then Inr \<lparr>res = body, unused_data = [], eof = False\<rparr>
                    else Inr \<lparr>res = take (unat n) body, unused_data = drop (unat n) body,
                               eof = True\<rparr>))"

declare decompress_lzma_loop.simps [code]
declare shrink_retry.simps [code]

section \<open>Manifest index (src/ingestion/data_downloader.py)\<close>

text \<open>
  \<^verbatim>\<open>decompress_index\<close> returns \<^verbatim>\<open>f.read().strip().split('\n')\<close>. The model starts from
  the text that \<^verbatim>\<open>f.read()\<close> returns. \<^verbatim>\<open>str.strip()\<close> removes the characters for which
  \<^verbatim>\<open>str.isspace\<close> holds from both ends; below code point 256 these are 9 to 13, 28 to 32,
  133 and 160.
\<close>

definition isspace :: "char \<Rightarrow> bool" where
  "isspace c =
     (let n = (of_char c :: nat)
      in (9 \<le> n \<and> n \<le> 13) \<or> (28 \<le> n \<and> n \<le> 32) \<or> n = 133 \<or> n = 160)"

definition strip :: "string \<Rightarrow> string" where
  "strip s = rev (dropWhile isspace (rev (dropWhile isspace s)))"

text \<open>
  \<^verbatim>\<open>s.split(sep)\<close> for a separator of one character: the pieces between the occurrences
  of the separator, empty pieces included; the empty string gives one empty piece.
\<close>

fun split :: "char \<Rightarrow> string \<Rightarrow> string list" where
  "split sep [] = [[]]"
| "split sep (c # cs) =
     (if c = sep then [] # split sep cs
      else (case split sep cs of
              [] \<Rightarrow> [[c]]
            | piece # pieces \<Rightarrow> (c # piece) # pieces))"

definition decompress_index :: "string \<Rightarrow> string list" where
  "decompress_index text = split (CHR 0x0A) (strip text)"

definition get_all_manifests :: "string \<Rightarrow> string list" where
  "get_all_manifests text = decompress_index text"

text \<open>
  The file name under which \<^verbatim>\<open>__main__\<close> saves a manifest:
  \<^verbatim>\<open>manifest.split('!')[0]\<close>. \<open>split\<close> never returns the empty list, so the
  index is in range.
\<close>

definition manifest_filename :: "string \<Rightarrow> string" where
  "manifest_filename manifest = hd (split CHR ''!'' manifest)"

text \<open>
  The index as the specification words it: one identifier per line of the decoded text,
  blank lines excluded.
\<close>

definition spec_manifest_ids :: "string \<Rightarrow> string list" where
  "spec_manifest_ids text = filter (\<lambda>l. \<not> list_all isspace l) (split (CHR 0x0A) text)"

text \<open>\<^verbatim>\<open>'\n'.join(ids)\<close>, to build index texts from their lines.\<close>

fun join_lines :: "string list \<Rightarrow> string" where
  "join_lines [] = []"
| "join_lines [l] = l"
| "join_lines (l # ls) = l @ CHR 0x0A # join_lines ls"

section \<open>JSON values and Python dictionaries\<close>

text \<open>
  What \<^verbatim>\<open>json.load\<close> returns: \<^verbatim>\<open>None\<close>, booleans, unbounded integers, floats, strings,
  lists and dictionaries with string keys. A dictionary is the list of its items in
  insertion order; a lookup takes the first item with the key.
\<close>

datatype json =
    JNull
  | JBool bool
  | JInt int
  | JFloat real
  | JStr string
  | JList "json list"
  | JObj "(string \<times> json) list"

type_synonym py_dict = "(string \<times> json) list"

datatype py_error =
    ValidationError "string list"
  | TypeError
  | AttributeError
  | Neo4jError

text \<open>\<^verbatim>\<open>d.get(k, default)\<close>; \<^verbatim>\<open>d.get(k)\<close> is \<^verbatim>\<open>d.get(k, None)\<close>.\<close>

definition dict_get :: "py_dict \<Rightarrow> string \<Rightarrow> json \<Rightarrow> json" where
  "dict_get d k dflt = (case map_of d k of None \<Rightarrow> dflt | Some v \<Rightarrow> v)"

text \<open>
  \<^verbatim>\<open>x.get(k, default)\<close> on a value of any type: only a dictionary has the method, on
  everything else the attribute lookup raises.
\<close>

definition py_get :: "json \<Rightarrow> string \<Rightarrow> json \<Rightarrow> py_error + json" where
  "py_get x k dflt = (case x of JObj d \<Rightarrow> Inr (dict_get d k dflt) | _ \<Rightarrow> Inl AttributeError)"

text \<open>The truth value of \<^verbatim>\<open>if x:\<close>.\<close>

fun truthy :: "json \<Rightarrow> bool" where
  "truthy JNull = False"
| "truthy (JBool b) = b"
| "truthy (JInt i) = (i \<noteq> 0)"
| "truthy (JFloat r) = (r \<noteq> 0)"
| "truthy (JStr s) = (s \<noteq> [])"
| "truthy (JList xs) = (xs \<noteq> [])"
| "truthy (JObj d) = (d \<noteq> [])"

text \<open>
  What \<^verbatim>\<open>for x in v\<close> iterates over: the elements of a list, the characters of a string,
  the keys of a dictionary; the other values are not iterable.
\<close>

fun py_iter :: "json \<Rightarrow> py_error + json list" where
  "py_iter (JList xs) = Inr xs"
| "py_iter (JStr s) = Inr (map (\<lambda>c. JStr [c]) s)"
| "py_iter (JObj d) = Inr (map (\<lambda>(k, v). JStr k) d)"
| "py_iter _ = Inl TypeError"

section \<open>What the libraries contribute\<close>

text \<open>
  Four behaviours of pydantic, of the Neo4j server and of the Python runtime that the
  source relies on and the repository does not define are parameters of the model:
  \<^item> \<open>conv\<close>: pydantic's conversion of a value that is not \<^verbatim>\<open>None\<close> to a declared
    type other than \<^verbatim>\<open>str\<close> (\<open>None\<close> when the value is rejected);
  \<^item> \<open>storable\<close>: whether Neo4j accepts a value as a property value;
  \<^item> \<open>py_str\<close>: \<^verbatim>\<open>str(v)\<close> of a list of floats;
  \<^item> \<open>set_order\<close>: the order in which a Python set of strings is iterated, given the
    order in which its elements were added.
\<close>

datatype ftype = TStr | TInt | TFloat | TBool | TListFloat | TListDict

record lib =
  conv :: "ftype \<Rightarrow> json \<Rightarrow> json option"
  storable :: "json \<Rightarrow> bool"
  py_str :: "json \<Rightarrow> string"
  set_order :: "string list \<Rightarrow> string list"

section \<open>The pydantic models (src/graph/models.py)\<close>

text \<open>
  A model is the list of its declared fields: name, declared type, and whether the field
  is required (no default) or \<^verbatim>\<open>Optional[...] = None\<close>. All three models allow extra
  fields.
\<close>

type_synonym field = "string \<times> ftype \<times> bool"

definition WeaponNode :: "field list" where
  "WeaponNode =
    [(''uniqueName'', TStr, True), (''name'', TStr, True), (''accuracy'', TFloat, False),
     (''blockingAngle'', TInt, False), (''codexSecret'', TBool, False),
     (''comboDuration'', TInt, False), (''criticalChance'', TFloat, False),
     (''criticalMultiplier'', TFloat, False), (''damagePerShot'', TListFloat, False),
     (''description'', TStr, False), (''excludeFromCodex'', TBool, False),
     (''fireRate'', TFloat, False), (''followThrough'', TFloat, False),
     (''heavyAttackDamage'', TInt, False), (''heavySlamAttack'', TInt, False),
     (''heavySlamRadialDamage'', TInt, False), (''heavySlamRadius'', TInt, False),
     (''magazineSize'', TInt, False), (''masteryReq'', TInt, False),
     (''maxLevelCap'', TInt, False), (''multishot'', TInt, False), (''noise'', TStr, False),
     (''omegaAttenuation'', TFloat, False), (''primeOmegaAttenuation'', TFloat, False),
     (''procChance'', TFloat, False), (''productCategory'', TStr, False),
     (''range'', TFloat, False), (''reloadTime'', TFloat, False), (''sentinel'', TBool, False),
     (''slamAttack'', TInt, False), (''slamRadialDamage'', TInt, False),
     (''slamRadius'', TInt, False), (''slideAttack'', TInt, False), (''slot'', TInt, False),
     (''totalDamage'', TFloat, False), (''trigger'', TStr, False), (''windUp'', TFloat, False)]"

definition ResourceNode :: "field list" where
  "ResourceNode =
    [(''uniqueName'', TStr, True), (''name'', TStr, True), (''codexSecret'', TBool, False),
     (''description'', TStr, False), (''excludeFromCodex'', TBool, False),
     (''longDescription'', TStr, False), (''parentName'', TStr, False),
     (''primeSellingPrice'', TInt, False), (''showInInventory'', TBool, False)]"

definition RecipeNode :: "field list" where
  "RecipeNode =
    [(''uniqueName'', TStr, True), (''resultType'', TStr, True),
     (''alwaysAvailable'', TBool, False), (''buildPrice'', TInt, False),
     (''buildTime'', TInt, False), (''codexSecret'', TBool, False),
     (''consumeOnUse'', TBool, False), (''excludeFromCodex'', TBool, False),
     (''ingredients'', TListDict, False), (''num'', TInt, False),
     (''primeSellingPrice'', TInt, False), (''secretIngredients'', TListDict, False),
     (''skipBuildTimePrice'', TInt, False)]"

text \<open>
  Validation of one declared field against the raw record. A \<^verbatim>\<open>str\<close> field accepts a
  string and nothing else; an optional field that is absent or \<^verbatim>\<open>None\<close> is \<^verbatim>\<open>None\<close>; a
  required field that is absent or \<^verbatim>\<open>None\<close> is an error. The result is the name of the
  failing field, or the validated value.
\<close>

definition convert :: "lib \<Rightarrow> ftype \<Rightarrow> json \<Rightarrow> json option" where
  "convert lib ty v =
     (if ty = TStr then (case v of JStr s \<Rightarrow> Some (JStr s) | _ \<Rightarrow> None) else conv lib ty v)"

fun validate_field :: "lib \<Rightarrow> py_dict \<Rightarrow> field \<Rightarrow> string + json" where
  "validate_field lib d (name, ty, required) =
     (case map_of d name of
        None \<Rightarrow> if required then Inl name else Inr JNull
      | Some v \<Rightarrow>
          if v = JNull then (if required then Inl name else Inr JNull)
          else (case convert lib ty v of None \<Rightarrow> Inl name | Some v' \<Rightarrow> Inr v'))"

text \<open>
  \<^verbatim>\<open>Model(**d)\<close>: every declared field is validated, the names of all failing fields
  go into one \<^verbatim>\<open>ValidationError\<close>; the validated model holds the declared fields in
  declaration order, then the extra items of the record as they are.
\<close>

definition validate_model :: "lib \<Rightarrow> field list \<Rightarrow> py_dict \<Rightarrow> py_error + py_dict" where
  "validate_model lib flds d =
     (let checked = map (\<lambda>f. (fst f, validate_field lib d f)) flds;
          failing = concat (map (\<lambda>(name, r). case r of Inl n \<Rightarrow> [n] | Inr v \<Rightarrow> []) checked)
      in if failing \<noteq> [] then Inl (ValidationError failing)
         else Inr (concat (map (\<lambda>(name, r). case r of Inl n \<Rightarrow> [] | Inr v \<Rightarrow> [(name, v)]) checked)
                   @ filter (\<lambda>(k, v). k \<notin> set (map fst flds)) d))"

text \<open>\<^verbatim>\<open>Model(**x)\<close> on a value that is not a dictionary raises \<^verbatim>\<open>TypeError\<close>.\<close>

definition construct :: "lib \<Rightarrow> field list \<Rightarrow> json \<Rightarrow> py_error + py_dict" where
  "construct lib flds x =
     (case x of JObj d \<Rightarrow> validate_model lib flds d | _ \<Rightarrow> Inl TypeError)"

text \<open>Attribute access \<^verbatim>\<open>model.name\<close> on a validated model.\<close>

definition attr :: "py_dict \<Rightarrow> string \<Rightarrow> json" where
  "attr model name = dict_get model name JNull"

text \<open>\<^verbatim>\<open>model.model_dump(exclude=..., exclude_none=True)\<close>, at the top level of the model.\<close>

definition model_dump :: "string list \<Rightarrow> py_dict \<Rightarrow> py_dict" where
  "model_dump exclude model = filter (\<lambda>(k, v). k \<notin> set exclude \<and> v \<noteq> JNull) model"

section \<open>The graph store\<close>

text \<open>
  The Neo4j database, as far as the Cypher statements of the source can observe it: nodes
  with an identity, one label and a property map, and relationships with a type, a
  property map and the identities of their two end nodes. Each \<^verbatim>\<open>session.run\<close> is one
  transaction: a statement that fails leaves the store as it was.
\<close>

datatype label = Resource | Weapon | Recipe | Category

datatype rel_type = BUILDS | REQUIRES | BELONGS_TO

type_synonym props = "string \<rightharpoonup> json"

record node =
  node_id :: nat
  node_label :: label
  node_props :: props

record rel =
  rel_src :: nat
  rel_kind :: rel_type
  rel_props :: props
  rel_dst :: nat

record graph =
  nodes :: "node list"
  rels :: "rel list"

text \<open>
  Equality of a stored property value and a query parameter in a pattern
  \<^verbatim>\<open>{key: $param}\<close>: \<^verbatim>\<open>null\<close> equals nothing, an integer equals the float of the same
  value, everything else is compared as it is.
\<close>

fun cy_eq :: "json \<Rightarrow> json \<Rightarrow> bool" where
  "cy_eq JNull y = False"
| "cy_eq x JNull = False"
| "cy_eq (JInt i) (JFloat r) = (of_int i = r)"
| "cy_eq (JFloat r) (JInt i) = (r = of_int i)"
| "cy_eq x y = (x = y)"

definition has_prop :: "props \<Rightarrow> string \<Rightarrow> json \<Rightarrow> bool" where
  "has_prop ps k v = (case ps k of None \<Rightarrow> False | Some pv \<Rightarrow> cy_eq pv v)"

text \<open>\<^verbatim>\<open>MATCH (n:L {key: $v})\<close>.\<close>

definition matches :: "label \<Rightarrow> string \<Rightarrow> json \<Rightarrow> node \<Rightarrow> bool" where
  "matches L key v n = (node_label n = L \<and> has_prop (node_props n) key v)"

definition match_nodes :: "graph \<Rightarrow> label \<Rightarrow> string \<Rightarrow> json \<Rightarrow> node list" where
  "match_nodes g L key v = filter (matches L key v) (nodes g)"

text \<open>\<^verbatim>\<open>SET n += $props\<close>: every key of the map is written; a \<^verbatim>\<open>null\<close> removes the key.\<close>

definition set_props :: "props \<Rightarrow> py_dict \<Rightarrow> props" where
  "set_props ps d =
     (\<lambda>k. case map_of d k of None \<Rightarrow> ps k | Some v \<Rightarrow> if v = JNull then None else Some v)"

definition fresh_id :: "graph \<Rightarrow> nat" where
  "fresh_id g = Suc (fold max (map node_id (nodes g)) 0)"

text \<open>
  \<^verbatim>\<open>MERGE (n:L {key: $v}) SET n += $props\<close>: the nodes that match are updated; when none
  matches, one is created with the key property and then updated. A \<^verbatim>\<open>null\<close> key, or a
  value the store cannot keep, fails the statement.
\<close>

definition merge_node ::
  "lib \<Rightarrow> label \<Rightarrow> string \<Rightarrow> json \<Rightarrow> py_dict \<Rightarrow> graph \<Rightarrow> py_error + graph" where
  "merge_node lib L key v d g =
     (if v = JNull \<or> \<not> storable lib v \<or> list_ex (\<lambda>(k, x). x \<noteq> JNull \<and> \<not> storable lib x) d
      then Inl Neo4jError
      else if match_nodes g L key v = [] then
        Inr (g\<lparr>nodes := nodes g @
               [\<lparr>node_id = fresh_id g, node_label = L, node_props = set_props [key \<mapsto> v] d\<rparr>]\<rparr>)
      else Inr (g\<lparr>nodes :=
                map (\<lambda>n. if matches L key v n then n\<lparr>node_props := set_props (node_props n) d\<rparr>
                         else n) (nodes g)\<rparr>))"

text \<open>
  \<^verbatim>\<open>MERGE (a)-[:T {pattern}]->(b)\<close> for one pair of matched nodes: the relationships of
  that type between the two nodes that carry the pattern's properties are the result
  rows; when there is none, one is created with exactly the pattern's properties.
\<close>

definition rel_matches :: "rel_type \<Rightarrow> nat \<Rightarrow> nat \<Rightarrow> py_dict \<Rightarrow> rel \<Rightarrow> bool" where
  "rel_matches kind a b pat r =
     (rel_kind r = kind \<and> rel_src r = a \<and> rel_dst r = b \<and>
      list_all (\<lambda>(k, v). has_prop (rel_props r) k v) pat)"

definition merge_rel ::
  "lib \<Rightarrow> rel_type \<Rightarrow> py_dict \<Rightarrow> node \<times> node \<Rightarrow> py_error + graph \<times> nat \<Rightarrow> py_error + graph \<times> nat"
  where
  "merge_rel lib kind pat row acc =
     (case acc of
        Inl e \<Rightarrow> Inl e
      | Inr (g, cnt) \<Rightarrow>
          (let a = node_id (fst row); b = node_id (snd row);
               found = filter (rel_matches kind a b pat) (rels g)
           in if found \<noteq> [] then Inr (g, cnt + length found)
              else if list_ex (\<lambda>(k, v). v = JNull \<or> \<not> storable lib v) pat then Inl Neo4jError
              else Inr (g\<lparr>rels := rels g @
                          [\<lparr>rel_src = a, rel_kind = kind, rel_props = map_of pat, rel_dst = b\<rparr>]\<rparr>,
                        cnt + 1)))"

text \<open>
  \<^verbatim>\<open>MATCH (a:L1 {k1: $v1}) MATCH (b:L2 {k2: $v2}) MERGE (a)-[:T {pattern}]->(b)
  RETURN count(*) as cnt\<close>: the merge runs for every pair of matched nodes, and the count
  is the number of result rows.
\<close>

definition match_merge ::
  "lib \<Rightarrow> graph \<Rightarrow> label \<times> string \<times> json \<Rightarrow> label \<times> string \<times> json \<Rightarrow> rel_type \<Rightarrow> py_dict
     \<Rightarrow> py_error + graph \<times> nat" where
  "match_merge lib g p1 p2 kind pat =
     (case (p1, p2) of
        ((L1, k1, v1), (L2, k2, v2)) \<Rightarrow>
          fold (merge_rel lib kind pat)
            (List.product (match_nodes g L1 k1 v1) (match_nodes g L2 k2 v2)) (Inr (g, 0)))"

text \<open>\<^verbatim>\<open>MATCH (n) DETACH DELETE n\<close>.\<close>

definition clear_database :: "graph \<Rightarrow> graph" where
  "clear_database g = \<lparr>nodes = [], rels = []\<rparr>"

section \<open>Ingestion (src/graph/ingest_neo4j.py)\<close>

text \<open>
  The store is passed through every function and returned updated. What the \<^verbatim>\<open>except\<close>
  clauses print is collected in a log; the progress and summary prints, and the two
  counters that only feed them, are left out. A function that an exception can leave
  returns the store as it is at that moment together with the exception.
\<close>

datatype log_line =
    Warning json
  | Error py_error

subsection \<open>Resources\<close>

text \<open>The body of the \<^verbatim>\<open>try\<close> in \<^verbatim>\<open>ingest_resources\<close>.\<close>

definition ingest_resource :: "lib \<Rightarrow> graph \<Rightarrow> json \<Rightarrow> py_error + graph" where
  "ingest_resource lib g resource_data =
     (case construct lib ResourceNode resource_data of
        Inl e \<Rightarrow> Inl e
      | Inr resource \<Rightarrow>
          merge_node lib Resource ''uniqueName'' (attr resource ''uniqueName'')
            (model_dump [''uniqueName''] resource) g)"

text \<open>
  The two \<^verbatim>\<open>except\<close> clauses: a \<^verbatim>\<open>ValidationError\<close> prints a warning with
  \<^verbatim>\<open>data.get(key, 'unknown')\<close>, any other exception prints an error; in both cases the
  loop goes on with the next record. A \<^verbatim>\<open>ValidationError\<close> comes from a dictionary only,
  so the \<^verbatim>\<open>get\<close> of the handler cannot raise.
\<close>

definition handled :: "string \<Rightarrow> json \<Rightarrow> py_error \<Rightarrow> log_line" where
  "handled key data e =
     (case e of
        ValidationError fs \<Rightarrow>
          Warning (case data of JObj d \<Rightarrow> dict_get d key (JStr ''unknown'') | _ \<Rightarrow> JStr ''unknown'')
      | _ \<Rightarrow> Error e)"

definition resource_step :: "lib \<Rightarrow> json \<Rightarrow> graph \<times> log_line list \<Rightarrow> graph \<times> log_line list" where
  "resource_step lib resource_data st =
     (case ingest_resource lib (fst st) resource_data of
        Inr g' \<Rightarrow> (g', snd st)
      | Inl e \<Rightarrow> (fst st, snd st @ [handled ''uniqueName'' resource_data e]))"

definition ingest_resources :: "lib \<Rightarrow> graph \<Rightarrow> json list \<Rightarrow> graph \<times> log_line list" where
  "ingest_resources lib g resources = fold (resource_step lib) resources (g, [])"

subsection \<open>Weapons and categories\<close>

text \<open>
  The properties written for a weapon: the dump of the model, with a non-empty
  \<^verbatim>\<open>damagePerShot\<close> replaced by its string, without \<^verbatim>\<open>uniqueName\<close>.
\<close>

definition weapon_props :: "lib \<Rightarrow> py_dict \<Rightarrow> py_dict" where
  "weapon_props lib weapon =
     (let weapon_dict = model_dump [] weapon;
          weapon_dict' =
            (case map_of weapon_dict ''damagePerShot'' of
               None \<Rightarrow> weapon_dict
             | Some v \<Rightarrow>
                 if truthy v then AList.update ''damagePerShot'' (JStr (py_str lib v)) weapon_dict
                 else weapon_dict)
      in filter (\<lambda>(k, v). k \<noteq> ''uniqueName'') weapon_dict')"

text \<open>\<^verbatim>\<open>categories.add(c)\<close> on the set, kept as the list of its elements.\<close>

definition add_category :: "json \<Rightarrow> string list \<Rightarrow> string list" where
  "add_category c categories =
     (case c of
        JStr s \<Rightarrow> if s \<noteq> [] \<and> s \<notin> set categories then categories @ [s] else categories
      | _ \<Rightarrow> categories)"

text \<open>The body of the \<^verbatim>\<open>try\<close> in \<^verbatim>\<open>ingest_weapons\<close>.\<close>

definition ingest_weapon ::
  "lib \<Rightarrow> graph \<times> string list \<Rightarrow> json \<Rightarrow> py_error + graph \<times> string list" where
  "ingest_weapon lib st weapon_data =
     (case construct lib WeaponNode weapon_data of
        Inl e \<Rightarrow> Inl e
      | Inr weapon \<Rightarrow>
          (case merge_node lib Weapon ''uniqueName'' (attr weapon ''uniqueName'')
                  (weapon_props lib weapon) (fst st) of
             Inl e \<Rightarrow> Inl e
           | Inr g' \<Rightarrow> Inr (g', add_category (attr weapon ''productCategory'') (snd st))))"

definition weapon_step ::
  "lib \<Rightarrow> json \<Rightarrow> (graph \<times> string list) \<times> log_line list \<Rightarrow> (graph \<times> string list) \<times> log_line list"
  where
  "weapon_step lib weapon_data st =
     (case ingest_weapon lib (fst st) weapon_data of
        Inr st' \<Rightarrow> (st', snd st)
      | Inl e \<Rightarrow> (fst st, snd st @ [handled ''name'' weapon_data e]))"

text \<open>
  \<^verbatim>\<open>_create_weapon_categories\<close>: for every category, the category node and then the
  links from the weapons of that category. Nothing catches an exception here.
\<close>

fun create_weapon_categories :: "lib \<Rightarrow> graph \<Rightarrow> string list \<Rightarrow> graph \<times> py_error option" where
  "create_weapon_categories lib g [] = (g, None)"
| "create_weapon_categories lib g (category # categories) =
     (case merge_node lib Category ''name'' (JStr category) [] g of
        Inl e \<Rightarrow> (g, Some e)
      | Inr g1 \<Rightarrow>
          (case match_merge lib g1 (Weapon, ''productCategory'', JStr category)
                  (Category, ''name'', JStr category) BELONGS_TO [] of
             Inl e \<Rightarrow> (g1, Some e)
           | Inr (g2, cnt) \<Rightarrow> create_weapon_categories lib g2 categories))"

text \<open>The loop over the weapons, and \<^verbatim>\<open>ingest_weapons\<close>: the loop, then the categories.\<close>

definition weapons_loop ::
  "lib \<Rightarrow> graph \<Rightarrow> json list \<Rightarrow> (graph \<times> string list) \<times> log_line list" where
  "weapons_loop lib g weapons = fold (weapon_step lib) weapons ((g, []), [])"

definition ingest_weapons ::
  "lib \<Rightarrow> graph \<Rightarrow> json list \<Rightarrow> graph \<times> log_line list \<times> py_error option" where
  "ingest_weapons lib g weapons =
     (case weapons_loop lib g weapons of
        ((g1, categories), printed) \<Rightarrow>
          (case create_weapon_categories lib g1 (set_order lib categories) of
             (g2, raised) \<Rightarrow> (g2, printed, raised)))"

subsection \<open>Recipes and their relationships\<close>

text \<open>The body of the \<^verbatim>\<open>try\<close> in \<^verbatim>\<open>ingest_recipes\<close>.\<close>

definition recipe_props :: "py_dict \<Rightarrow> py_dict" where
  "recipe_props recipe = model_dump [''uniqueName'', ''ingredients'', ''secretIngredients''] recipe"

definition ingest_recipe :: "lib \<Rightarrow> graph \<Rightarrow> json \<Rightarrow> py_error + graph" where
  "ingest_recipe lib g recipe_data =
     (case construct lib RecipeNode recipe_data of
        Inl e \<Rightarrow> Inl e
      | Inr recipe \<Rightarrow>
          merge_node lib Recipe ''uniqueName'' (attr recipe ''uniqueName'') (recipe_props recipe) g)"

definition recipe_step :: "lib \<Rightarrow> json \<Rightarrow> graph \<times> log_line list \<Rightarrow> graph \<times> log_line list" where
  "recipe_step lib recipe_data st =
     (case ingest_recipe lib (fst st) recipe_data of
        Inr g' \<Rightarrow> (g', snd st)
      | Inl e \<Rightarrow> (fst st, snd st @ [handled ''uniqueName'' recipe_data e]))"

text \<open>
  The BUILDS part of \<^verbatim>\<open>_create_recipe_relationships\<close> for one recipe (lines 186 to 210):
  the statement with the Weapon label first, and the one with the Resource label when the
  first returned the count 0.
\<close>

definition create_builds :: "lib \<Rightarrow> graph \<Rightarrow> py_dict \<Rightarrow> py_error + graph" where
  "create_builds lib g recipe_data =
     (let recipe_unique = dict_get recipe_data ''uniqueName'' JNull;
          result_type = dict_get recipe_data ''resultType'' JNull;
          quantity = dict_get recipe_data ''num'' (JInt 1)
      in if truthy result_type then
           (case match_merge lib g (Recipe, ''uniqueName'', recipe_unique)
                   (Weapon, ''uniqueName'', result_type) BUILDS [(''quantity'', quantity)] of
              Inl e \<Rightarrow> Inl e
            | Inr (g1, cnt) \<Rightarrow>
                if cnt = 0 then
                  (case match_merge lib g1 (Recipe, ''uniqueName'', recipe_unique)
                          (Resource, ''uniqueName'', result_type) BUILDS
                          [(''quantity'', quantity)] of
                     Inl e \<Rightarrow> Inl e
                   | Inr (g2, cnt2) \<Rightarrow> Inr g2)
                else Inr g1)
         else Inr g)"

text \<open>The body of the loop over the ingredients (lines 213 to 227), for one ingredient.\<close>

definition create_requires :: "lib \<Rightarrow> graph \<Rightarrow> json \<Rightarrow> json \<Rightarrow> py_error + graph" where
  "create_requires lib g recipe_unique ingredient =
     (case py_get ingredient ''ItemType'' JNull of
        Inl e \<Rightarrow> Inl e
      | Inr item_type \<Rightarrow>
          (case py_get ingredient ''ItemCount'' (JInt 1) of
             Inl e \<Rightarrow> Inl e
           | Inr item_count \<Rightarrow>
               if truthy item_type then
                 (case match_merge lib g (Recipe, ''uniqueName'', recipe_unique)
                         (Resource, ''uniqueName'', item_type) REQUIRES
                         [(''quantity'', item_count)] of
                    Inl e \<Rightarrow> Inl e
                  | Inr (g1, cnt) \<Rightarrow> Inr g1)
               else Inr g))"

fun requires_loop :: "lib \<Rightarrow> graph \<Rightarrow> json \<Rightarrow> json list \<Rightarrow> graph \<times> py_error option" where
  "requires_loop lib g recipe_unique [] = (g, None)"
| "requires_loop lib g recipe_unique (ingredient # ingredients) =
     (case create_requires lib g recipe_unique ingredient of
        Inl e \<Rightarrow> (g, Some e)
      | Inr g1 \<Rightarrow> requires_loop lib g1 recipe_unique ingredients)"

text \<open>One turn of the loop over the recipes: the three \<^verbatim>\<open>get\<close>s, BUILDS, then REQUIRES.\<close>

definition recipe_relationships :: "lib \<Rightarrow> graph \<Rightarrow> json \<Rightarrow> graph \<times> py_error option" where
  "recipe_relationships lib g recipe_data =
     (case recipe_data of
        JObj d \<Rightarrow>
          (case create_builds lib g d of
             Inl e \<Rightarrow> (g, Some e)
           | Inr g1 \<Rightarrow>
               (case py_iter (dict_get d ''ingredients'' (JList [])) of
                  Inl e \<Rightarrow> (g1, Some e)
                | Inr ingredients \<Rightarrow>
                    requires_loop lib g1 (dict_get d ''uniqueName'' JNull) ingredients))
      | _ \<Rightarrow> (g, Some AttributeError))"

fun create_recipe_relationships :: "lib \<Rightarrow> graph \<Rightarrow> json list \<Rightarrow> graph \<times> py_error option" where
  "create_recipe_relationships lib g [] = (g, None)"
| "create_recipe_relationships lib g (recipe_data # recipes) =
     (case recipe_relationships lib g recipe_data of
        (g1, Some e) \<Rightarrow> (g1, Some e)
      | (g1, None) \<Rightarrow> create_recipe_relationships lib g1 recipes)"

text \<open>
  The loop over the recipes that upserts the nodes, and \<^verbatim>\<open>ingest_recipes\<close>: that loop,
  then the relationships, over the same raw records.
\<close>

definition recipes_loop :: "lib \<Rightarrow> graph \<Rightarrow> json list \<Rightarrow> graph \<times> log_line list" where
  "recipes_loop lib g recipes = fold (recipe_step lib) recipes (g, [])"

definition ingest_recipes ::
  "lib \<Rightarrow> graph \<Rightarrow> json list \<Rightarrow> graph \<times> log_line list \<times> py_error option" where
  "ingest_recipes lib g recipes =
     (case recipes_loop lib g recipes of
        (g1, printed) \<Rightarrow>
          (case create_recipe_relationships lib g1 recipes of
             (g2, raised) \<Rightarrow> (g2, printed, raised)))"

subsection \<open>The whole run\<close>

text \<open>
  \<^verbatim>\<open>ingest_all\<close>: \<open>clear\<close> says whether the database is cleared first (the flag was given
  and the prompt answered with yes); then resources, weapons, recipes, in this order. An
  exception from the weapons ends the run before the recipes.
\<close>

definition ingest_all ::
  "lib \<Rightarrow> bool \<Rightarrow> graph \<Rightarrow> json list \<Rightarrow> json list \<Rightarrow> json list
     \<Rightarrow> graph \<times> log_line list \<times> py_error option" where
  "ingest_all lib clear g resources weapons recipes =
     (case ingest_resources lib (if clear then clear_database g else g) resources of
        (g1, log1) \<Rightarrow>
          (case ingest_weapons lib g1 weapons of
             (g2, log2, Some e) \<Rightarrow> (g2, log1 @ log2, Some e)
           | (g2, log2, None) \<Rightarrow>
               (case ingest_recipes lib g2 recipes of
                  (g3, log3, raised) \<Rightarrow> (g3, log1 @ log2 @ log3, raised))))"

subsection \<open>Concrete library behaviour for running the model\<close>

text \<open>
  For evaluating the functions on concrete records: a conversion that accepts a value
  already of the declared type, a store that keeps booleans, numbers, strings and lists
  of them, some string for a list, and sets iterated in insertion order.
\<close>

fun plain_conv :: "ftype \<Rightarrow> json \<Rightarrow> json option" where
  "plain_conv TInt (JInt i) = Some (JInt i)"
| "plain_conv TFloat (JFloat r) = Some (JFloat r)"
| "plain_conv TFloat (JInt i) = Some (JFloat (of_int i))"
| "plain_conv TBool (JBool b) = Some (JBool b)"
| "plain_conv TListFloat (JList xs) =
     (if list_all (\<lambda>x. case x of JFloat r \<Rightarrow> True | _ \<Rightarrow> False) xs then Some (JList xs) else None)"
| "plain_conv TListDict (JList xs) =
     (if list_all (\<lambda>x. case x of JObj d \<Rightarrow> True | _ \<Rightarrow> False) xs then Some (JList xs) else None)"
| "plain_conv _ _ = None"

fun primitive :: "json \<Rightarrow> bool" where
  "primitive (JBool b) = True"
| "primitive (JInt i) = True"
| "primitive (JFloat r) = True"
| "primitive (JStr s) = True"
| "primitive _ = False"

definition plain_storable :: "json \<Rightarrow> bool" where
  "plain_storable v = (case v of JList xs \<Rightarrow> list_all primitive xs | _ \<Rightarrow> primitive v)"

definition plain_lib :: lib where
  "plain_lib = \<lparr>conv = plain_conv, storable = plain_storable, py_str = (\<lambda>v. ''[...]''),
                set_order = (\<lambda>cs. cs)\<rparr>"

section \<open>Predicates on the store\<close>

text \<open>Every relationship of the store starts and ends at a node of the store.\<close>

definition node_ids :: "graph \<Rightarrow> nat set" where
  "node_ids g = set (map node_id (nodes g))"

definition endpoints_exist :: "graph \<Rightarrow> bool" where
  "endpoints_exist g = list_all (\<lambda>r. rel_src r \<in> node_ids g \<and> rel_dst r \<in> node_ids g) (rels g)"

text \<open>
  One transaction of the kind the source issues, with any parameters: a node merge, a
  relationship merge between matched nodes, or the clearing of the database.
\<close>

inductive step :: "lib \<Rightarrow> graph \<Rightarrow> graph \<Rightarrow> bool" for lib :: lib where
  node_merged: "merge_node lib L key v d g = Inr g' \<Longrightarrow> step lib g g'"
| rels_merged: "match_merge lib g p1 p2 kind pat = Inr (g', cnt) \<Longrightarrow> step lib g g'"
| cleared: "step lib g (clear_database g)"




section \<open>The end-to-end scenario of the specification\<close>

text \<open>
  The records of the scenario: a resource \<open>Res1\<close>, a weapon \<open>W1\<close> of the category
  \<open>Pistols\<close>, and the recipe \<open>R1\<close> that builds two \<open>W1\<close> from five \<open>Res1\<close>; and the
  store after the resources and the weapons of the scenario and the node of the recipe
  have been ingested into an empty database.
\<close>

definition scenario_resource :: json where
  "scenario_resource = JObj [(''uniqueName'', JStr ''Res1''), (''name'', JStr ''Ferrite'')]"

definition scenario_weapon :: json where
  "scenario_weapon =
     JObj [(''uniqueName'', JStr ''W1''), (''name'', JStr ''Lex''),
           (''productCategory'', JStr ''Pistols'')]"

definition scenario_recipe :: py_dict where
  "scenario_recipe =
     [(''uniqueName'', JStr ''R1''), (''resultType'', JStr ''W1''), (''num'', JInt 2),
      (''ingredients'', JList [JObj [(''ItemType'', JStr ''Res1''), (''ItemCount'', JInt 5)]])]"






section \<open>Node upserts as total operations\<close>

text \<open>
  The effect on the store of one turn of a loop that upserts nodes: the node merge with
  the key \<^verbatim>\<open>uniqueName\<close>, a string, and the store left as it is when the merge is
  rejected. Whether it is rejected does not depend on the store.
\<close>

type_synonym upsert_op = "string \<times> py_dict"




definition upd :: "label \<Rightarrow> upsert_op \<Rightarrow> node \<Rightarrow> node" where
  "upd L op n =
     (if matches L ''uniqueName'' (JStr (fst op)) n
      then n\<lparr>node_props := set_props (node_props n) (snd op)\<rparr> else n)"








text \<open>
  A pair of matched nodes has a relationship of the type with the pattern's properties.
\<close>

definition found :: "graph \<Rightarrow> rel_type \<Rightarrow> py_dict \<Rightarrow> node \<times> node \<Rightarrow> bool" where
  "found g kind pat row =
     list_ex (rel_matches kind (node_id (fst row)) (node_id (snd row)) pat) (rels g)"


section \<open>Properties of the decompressor\<close>

lemma py_prefix_full: "py_prefix xs (int (length xs)) = xs"
  by (simp add: py_prefix_def)

lemma py_prefix_nat: "py_prefix xs (int n) = take n xs"
  by (simp add: py_prefix_def)

lemma decompress_lzma_first_error:
  "dec data = Inl e \<Longrightarrow> decompress_lzma dec data = Some (Inl e)"
  unfolding decompress_lzma_def by (subst decompress_lzma_loop.simps) simp

lemma decompress_lzma_loop_terminates:
  assumes progress: "\<And>x d. dec x = Inr d \<Longrightarrow> unused_data d \<noteq> [] \<Longrightarrow> length (unused_data d) < length x"
  shows "\<exists>r. decompress_lzma_loop dec results data = Some r"
proof (induction data arbitrary: results rule: length_induct)
  case (1 data)
  show ?case
  proof (cases "dec data")
    case (Inl e)
    then show ?thesis by (subst decompress_lzma_loop.simps) simp
  next
    case (Inr d)
    show ?thesis
    proof (cases "unused_data d \<noteq> [] \<and> eof d")
      case True
      with progress [OF Inr] have "length (unused_data d) < length data" by simp
      with 1 obtain r where "decompress_lzma_loop dec (results @ [res d]) (unused_data d) = Some r"
        by blast
      with Inr True show ?thesis by (subst decompress_lzma_loop.simps) simp
    next
      case False
      with Inr show ?thesis by (subst decompress_lzma_loop.simps) auto
    qed
  qed
qed

lemma decompress_lzma_empty:
  assumes "dec [] = Inr d0" and "unused_data d0 = []"
  shows "decompress_lzma dec [] = Some (Inr (res d0))"
  unfolding decompress_lzma_def using assms by (subst decompress_lzma_loop.simps) simp

lemma shrink_retry_success:
  "decompress_lzma dec (py_prefix byt len) = Some (Inr out) \<Longrightarrow> shrink_retry dec byt len = Some (len, out)"
  by (subst shrink_retry.simps) simp

lemma shrink_retry_failure:
  "decompress_lzma dec (py_prefix byt len) = Some (Inl e) \<Longrightarrow>
   shrink_retry dec byt len = shrink_retry dec byt (len - 1)"
  by (subst shrink_retry.simps) simp

lemma shrink_retry_from_nat:
  assumes progress: "\<And>x d. dec x = Inr d \<Longrightarrow> unused_data d \<noteq> [] \<Longrightarrow> length (unused_data d) < length x"
    and empty: "dec [] = Inr d0"
  shows "\<exists>len out. shrink_retry dec byt (int n) = Some (len, out) \<and> 0 \<le> len \<and> len \<le> int n \<and>
           decompress_lzma dec (py_prefix byt len) = Some (Inr out) \<and>
           (\<forall>k. len < k \<and> k \<le> int n \<longrightarrow> (\<exists>e. decompress_lzma dec (py_prefix byt k) = Some (Inl e)))"
proof (induction n)
  case 0
  from progress [OF empty] have "unused_data d0 = []" by auto
  with empty have "decompress_lzma dec (py_prefix byt 0) = Some (Inr (res d0))"
    by (simp add: py_prefix_def decompress_lzma_empty)
  then show ?case using shrink_retry_success [of dec byt 0 "res d0"] by auto
next
  case (Suc n)
  from decompress_lzma_loop_terminates [OF progress]
  obtain r where r: "decompress_lzma dec (py_prefix byt (int (Suc n))) = Some r"
    unfolding decompress_lzma_def by blast
  show ?case
  proof (cases r)
    case (Inr out)
    with r shrink_retry_success [of dec byt "int (Suc n)" out] show ?thesis by auto
  next
    case (Inl e)
    with r have "shrink_retry dec byt (int (Suc n)) = shrink_retry dec byt (int n)"
      using shrink_retry_failure [of dec byt "int (Suc n)" e] by simp
    moreover from Suc obtain len out where
      lo: "shrink_retry dec byt (int n) = Some (len, out)" "0 \<le> len" "len \<le> int n"
        "decompress_lzma dec (py_prefix byt len) = Some (Inr out)"
        "\<forall>k. len < k \<and> k \<le> int n \<longrightarrow> (\<exists>e. decompress_lzma dec (py_prefix byt k) = Some (Inl e))"
      by blast
    moreover have "\<forall>k. len < k \<and> k \<le> int (Suc n) \<longrightarrow>
        (\<exists>e. decompress_lzma dec (py_prefix byt k) = Some (Inl e))"
    proof (intro allI impI)
      fix k assume k: "len < k \<and> k \<le> int (Suc n)"
      show "\<exists>e. decompress_lzma dec (py_prefix byt k) = Some (Inl e)"
      proof (cases "k = int (Suc n)")
        case True
        with r Inl show ?thesis by blast
      next
        case False
        with k have "len < k \<and> k \<le> int n" by simp
        with lo(5) show ?thesis by blast
      qed
    qed
    ultimately show ?thesis by auto
  qed
qed

lemma shrink_retry_never_returns:
  assumes "shrink_retry dec byt len = Some y" and "\<And>x. \<exists>e. dec x = Inl e"
  shows False
  using assms
proof (induction rule: shrink_retry.raw_induct[rotated 1, consumes 1])
  case (1 shrink_retry dec byt len y)
  from 1(3) obtain e where "dec (py_prefix byt len) = Inl e" by blast
  then have "decompress_lzma dec (py_prefix byt len) = Some (Inl e)"
    by (rule decompress_lzma_first_error)
  with 1(2) have "shrink_retry dec byt (len - 1) = Some y" by simp
  moreover obtain a b where "y = (a, b)" by (cases y)
  ultimately have "shrink_retry dec byt (len - 1) = Some (a, b)" by simp
  then show ?case using 1(3) by (rule 1(1))
qed

lemma shrink_retry_diverges: "shrink_retry (\<lambda>_. Inl e) byt len = None"
  using shrink_retry_never_returns [of "\<lambda>_. Inl e" byt len]
  by (cases "shrink_retry (\<lambda>_. Inl e) byt len") auto

lemma stored_dec_progress:
  "stored_dec x = Inr d \<Longrightarrow> unused_data d \<noteq> [] \<Longrightarrow> length (unused_data d) < length x"
  by (auto simp: stored_dec_def split: list.splits if_splits)

text \<open>
  C4 (as amended). Two complete frames followed by at least one trailing byte on which the
  decompressor raises, or from which it decodes nothing, decompress to the two plaintexts
  joined, at the full length of the buffer: no byte is cut off.
\<close>

theorem two_frames_then_tail:
  assumes f1: "\<And>rest. dec (f1 @ rest) = Inr \<lparr>res = p1, unused_data = rest, eof = True\<rparr>"
    and f2: "\<And>rest. dec (f2 @ rest) = Inr \<lparr>res = p2, unused_data = rest, eof = True\<rparr>"
    and g: "g \<noteq> []"
    and tail: "(\<exists>e. dec g = Inl e) \<or> (\<exists>d. dec g = Inr d \<and> res d = [] \<and> unused_data d = [])"
  shows "shrink_retry dec (f1 @ f2 @ g) (int (length (f1 @ f2 @ g))) =
           Some (int (length (f1 @ f2 @ g)), p1 @ p2)
         \<and> download_and_decompress dec (f1 @ f2 @ g) = Some (p1 @ p2)"
proof -
  have 3: "decompress_lzma_loop dec [p1, p2] g = Some (Inr (p1 @ p2))"
    using tail by (subst decompress_lzma_loop.simps) auto
  have 2: "decompress_lzma_loop dec [p1] (f2 @ g) = Some (Inr (p1 @ p2))"
    using f2 [of g] g 3 by (subst decompress_lzma_loop.simps) simp
  have "decompress_lzma_loop dec [] (f1 @ f2 @ g) = Some (Inr (p1 @ p2))"
    using f1 [of "f2 @ g"] g 2 by (subst decompress_lzma_loop.simps) simp
  then have "decompress_lzma dec (py_prefix (f1 @ f2 @ g) (int (length (f1 @ f2 @ g)))) =
      Some (Inr (p1 @ p2))"
    by (simp only: py_prefix_full decompress_lzma_def)
  then have "shrink_retry dec (f1 @ f2 @ g) (int (length (f1 @ f2 @ g))) =
           Some (int (length (f1 @ f2 @ g)), p1 @ p2)"
    by (rule shrink_retry_success)
  then show ?thesis by (simp only: download_and_decompress_def option.map snd_conv simp_thms)
qed

theorem two_frames_then_tail_witness:
  "download_and_decompress stored_dec ([0x53, 2, 0x61, 0x62] @ [0x53, 1, 0x63] @ [0xFF]) =
     Some ([0x61, 0x62] @ [0x63])"
  using two_frames_then_tail [of stored_dec "[0x53, 2, 0x61, 0x62]" "[0x61, 0x62]"
      "[0x53, 1, 0x63]" "[0x63]" "[0xFF]"]
  by (simp add: stored_dec_def)

text \<open>
  C4 as stated fails when the trailing bytes are themselves the start of a frame: what the
  decompressor decodes from them is appended to the output.
\<close>

theorem truncated_tail_counterexample:
  "stored_dec [0x53, 2, 0x61, 0x62] = Inr \<lparr>res = [0x61, 0x62], unused_data = [], eof = True\<rparr>
   \<and> stored_dec [0x53, 2, 0x63, 0x64] = Inr \<lparr>res = [0x63, 0x64], unused_data = [], eof = True\<rparr>
   \<and> length [0x53, 3, 0x7A :: byte] < length [0x53, 2, 0x61, 0x62 :: byte]
   \<and> download_and_decompress stored_dec
        ([0x53, 2, 0x61, 0x62] @ [0x53, 2, 0x63, 0x64] @ [0x53, 3, 0x7A]) =
      Some ([0x61, 0x62] @ [0x63, 0x64] @ [0x7A])
   \<and> download_and_decompress stored_dec
        ([0x53, 2, 0x61, 0x62] @ [0x53, 2, 0x63, 0x64] @ [0x53, 3, 0x7A]) \<noteq>
      Some ([0x61, 0x62] @ [0x63, 0x64])"
  by code_simp

text \<open>
  C5 (as amended). When the first frame of the tried prefix fails to decode,
  \<^verbatim>\<open>decompress_lzma\<close> raises the decode error without output, and the loop of
  \<^verbatim>\<open>download_and_decompress\<close> catches it and goes on with the prefix one byte shorter.
\<close>

theorem zero_progress_is_retried:
  assumes "dec (py_prefix byt len) = Inl e"
  shows "decompress_lzma dec (py_prefix byt len) = Some (Inl e)
         \<and> shrink_retry dec byt len = shrink_retry dec byt (len - 1)"
proof -
  from assms have "decompress_lzma dec (py_prefix byt len) = Some (Inl e)"
    by (rule decompress_lzma_first_error)
  then show ?thesis by (simp add: shrink_retry_failure)
qed

theorem zero_progress_is_retried_witness:
  "decompress_lzma stored_dec (py_prefix [0xFF] 1) =
     Some (Inl (LZMAError ''Input format not supported by decoder''))
   \<and> shrink_retry stored_dec [0xFF] 1 = shrink_retry stored_dec [0xFF] (1 - 1)"
  using zero_progress_is_retried [of stored_dec "[0xFF]" 1
      "LZMAError ''Input format not supported by decoder''"]
  by (simp add: stored_dec_def py_prefix_def)

text \<open>
  C5 as stated fails: on a buffer whose first byte is rejected the error of
  \<^verbatim>\<open>decompress_lzma\<close> is caught, the length shrinks to zero, and the result is the empty
  output.
\<close>

theorem invalid_input_counterexample:
  "stored_dec [0xFF] = Inl (LZMAError ''Input format not supported by decoder'')
   \<and> decompress_lzma stored_dec [0xFF] = Some (Inl (LZMAError ''Input format not supported by decoder''))
   \<and> shrink_retry stored_dec [0xFF] 1 = Some (0, [])
   \<and> download_and_decompress stored_dec [0xFF] = Some []"
  by code_simp

text \<open>
  C6. The shrink-and-retry loop returns for every buffer, at a length between zero and the
  length of the buffer, after every longer length has failed. The two hypotheses are what
  the decompressor contributes: it leaves less unused data than it was given, and it
  accepts the empty buffer. Without the second one the loop has no exit
  (\<open>shrink_retry_diverges\<close>).
\<close>

theorem shrink_retry_terminates:
  assumes progress: "\<And>x d. dec x = Inr d \<Longrightarrow> unused_data d \<noteq> [] \<Longrightarrow> length (unused_data d) < length x"
    and empty: "dec [] = Inr d0"
  shows "\<exists>len out. shrink_retry dec byt (int (length byt)) = Some (len, out) \<and>
           download_and_decompress dec byt = Some out \<and> 0 \<le> len \<and> len \<le> int (length byt) \<and>
           decompress_lzma dec (py_prefix byt len) = Some (Inr out) \<and>
           (\<forall>k. len < k \<and> k \<le> int (length byt) \<longrightarrow>
              (\<exists>e. decompress_lzma dec (py_prefix byt k) = Some (Inl e)))"
  using shrink_retry_from_nat [of dec d0 byt "length byt", OF progress empty]
  unfolding download_and_decompress_def by fastforce

theorem shrink_retry_terminates_witness:
  "\<exists>len out. shrink_retry stored_dec [0x53, 1, 0x61, 0xFF] (int (length [0x53, 1, 0x61, 0xFF :: byte])) = Some (len, out) \<and>
           download_and_decompress stored_dec [0x53, 1, 0x61, 0xFF] = Some out \<and> 0 \<le> len \<and>
           len \<le> int (length [0x53, 1, 0x61, 0xFF :: byte]) \<and>
           decompress_lzma stored_dec (py_prefix [0x53, 1, 0x61, 0xFF] len) = Some (Inr out) \<and>
           (\<forall>k. len < k \<and> k \<le> int (length [0x53, 1, 0x61, 0xFF :: byte]) \<longrightarrow>
              (\<exists>e. decompress_lzma stored_dec (py_prefix [0x53, 1, 0x61, 0xFF] k) = Some (Inl e)))"
proof -
  have "stored_dec [] = Inr \<lparr>res = [], unused_data = [], eof = False\<rparr>"
    by (simp add: stored_dec_def)
  then show ?thesis
    using stored_dec_progress by (rule shrink_retry_terminates [rotated])
qed

section \<open>Properties of the manifest index\<close>

lemma split_not_Nil: "split sep s \<noteq> []"
  by (induction s) (auto split: list.splits)

lemma split_no_sep: "sep \<notin> set l \<Longrightarrow> split sep l = [l]"
  by (induction l) auto

lemma split_append_sep:
  "sep \<notin> set l \<Longrightarrow> split sep (l @ sep # rest) = l # split sep rest"
  by (induction l) auto

lemma split_join_lines:
  "ls \<noteq> [] \<Longrightarrow> \<forall>l \<in> set ls. CHR 0x0A \<notin> set l \<Longrightarrow> split (CHR 0x0A) (join_lines ls) = ls"
  by (induction ls rule: join_lines.induct) (auto simp: split_no_sep split_append_sep)

lemma dropWhile_space_prefix:
  "list_all isspace pre \<Longrightarrow> dropWhile isspace (pre @ s) = dropWhile isspace s"
  by (induction pre) auto

lemma strip_core:
  assumes "list_all isspace pre" "list_all isspace post"
    and "body \<noteq> []" "\<not> isspace (hd body)" "\<not> isspace (last body)"
  shows "strip (pre @ body @ post) = body"
proof -
  from assms(3,4) have 1: "dropWhile isspace body = body" by (cases body) auto
  have "dropWhile isspace (pre @ body @ post) = body @ post"
    using assms(1,3,4) by (cases body) (auto simp: dropWhile_space_prefix)
  moreover have "dropWhile isspace (rev post @ rev body) = rev body"
  proof -
    from assms(2) have "list_all isspace (rev post)" by (simp add: list_all_iff)
    then have "dropWhile isspace (rev post @ rev body) = dropWhile isspace (rev body)"
      by (rule dropWhile_space_prefix)
    also have "\<dots> = rev body"
      using assms(3,5) by (cases body rule: rev_cases) auto
    finally show ?thesis .
  qed
  ultimately show ?thesis by (simp add: strip_def)
qed

lemma join_lines_Nil_iff: "join_lines ls = [] \<longleftrightarrow> ls = [] \<or> ls = [[]]"
  by (induction ls rule: join_lines.induct) auto

lemma join_lines_not_Nil: "ls \<noteq> [] \<Longrightarrow> hd ls \<noteq> [] \<Longrightarrow> join_lines ls \<noteq> []"
  by (induction ls rule: join_lines.induct) auto

lemma hd_join_lines: "ls \<noteq> [] \<Longrightarrow> hd ls \<noteq> [] \<Longrightarrow> hd (join_lines ls) = hd (hd ls)"
  by (induction ls rule: join_lines.induct) auto

lemma last_join_lines: "ls \<noteq> [] \<Longrightarrow> last ls \<noteq> [] \<Longrightarrow> last (join_lines ls) = last (last ls)"
  by (induction ls rule: join_lines.induct) (auto simp: join_lines_Nil_iff)

text \<open>
  C7 (as amended). An index text that consists of the lines \<open>ls\<close>, the first starting and
  the last ending with a character that is not white space, with white space before and
  after, is returned as exactly \<open>ls\<close>, in order. The lines in between are returned
  as they are, blank ones included.
\<close>

theorem decompress_index_lines:
  assumes "list_all isspace pre" and "list_all isspace post"
    and "ls \<noteq> []" and "\<forall>l \<in> set ls. CHR 0x0A \<notin> set l"
    and "hd ls \<noteq> []" and "\<not> isspace (hd (hd ls))"
    and "last ls \<noteq> []" and "\<not> isspace (last (last ls))"
  shows "decompress_index (pre @ join_lines ls @ post) = ls"
proof -
  have "strip (pre @ join_lines ls @ post) = join_lines ls"
    using assms by (intro strip_core) (simp_all add: join_lines_not_Nil hd_join_lines last_join_lines)
  then show ?thesis
    using assms(3,4) by (simp add: decompress_index_def split_join_lines)
qed

theorem decompress_index_lines_witness:
  "decompress_index ([CHR 0x0A] @ join_lines [''a!1'', [], ''b!2''] @ [CHR 0x0A, CHR 0x0A]) =
     [''a!1'', [], ''b!2'']"
  using decompress_index_lines [of "[CHR 0x0A]" "[CHR 0x0A, CHR 0x0A]" "[''a!1'', [], ''b!2'']"]
  by (simp add: isspace_def)

text \<open>
  C7 as stated fails: a blank line between two identifiers is returned as an empty
  identifier.
\<close>

theorem interior_blank_line_counterexample:
  "decompress_index (''a!1'' @ [CHR 0x0A, CHR 0x0A] @ ''b!2'' @ [CHR 0x0A]) = [''a!1'', [], ''b!2'']
   \<and> spec_manifest_ids (''a!1'' @ [CHR 0x0A, CHR 0x0A] @ ''b!2'' @ [CHR 0x0A]) = [''a!1'', ''b!2'']
   \<and> decompress_index (''a!1'' @ [CHR 0x0A, CHR 0x0A] @ ''b!2'' @ [CHR 0x0A]) \<noteq>
       spec_manifest_ids (''a!1'' @ [CHR 0x0A, CHR 0x0A] @ ''b!2'' @ [CHR 0x0A])"
  by (simp add: decompress_index_def spec_manifest_ids_def strip_def isspace_def)

section \<open>Properties of the store statements\<close>

lemma merge_node_rels: "merge_node lib L key v d g = Inr g' \<Longrightarrow> rels g' = rels g"
  by (auto simp: merge_node_def split: if_splits)

lemma map_node_id_update:
  "map node_id (map (\<lambda>n. if P n then n\<lparr>node_props := f n\<rparr> else n) ns) = map node_id ns"
  by (induction ns) auto

lemma merge_node_cases:
  assumes "merge_node lib L key v d g = Inr g'"
  obtains (created) "match_nodes g L key v = []"
      "nodes g' = nodes g @ [\<lparr>node_id = fresh_id g, node_label = L,
                               node_props = set_props [key \<mapsto> v] d\<rparr>]"
    | (updated) "match_nodes g L key v \<noteq> []"
      "nodes g' = map (\<lambda>n. if matches L key v n
                             then n\<lparr>node_props := set_props (node_props n) d\<rparr> else n) (nodes g)"
  using assms by (auto simp: merge_node_def split: if_splits)

lemma merge_node_ids:
  assumes "merge_node lib L key v d g = Inr g'"
  shows "node_ids g \<subseteq> node_ids g'"
  using assms
proof (cases rule: merge_node_cases)
  case created
  then show ?thesis by (auto simp: node_ids_def)
next
  case updated
  then show ?thesis by (simp only: node_ids_def map_node_id_update subset_refl)
qed

lemma fold_merge_rel_Inl: "fold (merge_rel lib kind pat) rows (Inl e) = Inl e"
  by (induction rows) (auto simp: merge_rel_def)

lemma merge_rel_cases:
  assumes "merge_rel lib kind pat row (Inr (g, c)) = Inr (g', c')"
  shows "nodes g' = nodes g \<and>
         (rels g' = rels g \<or>
          rels g' = rels g @ [\<lparr>rel_src = node_id (fst row), rel_kind = kind, rel_props = map_of pat,
                                rel_dst = node_id (snd row)\<rparr>])"
  using assms by (auto simp: merge_rel_def Let_def split: if_splits)

lemma fold_merge_rel_nodes:
  "fold (merge_rel lib kind pat) rows (Inr (g, c)) = Inr (g', c') \<Longrightarrow> nodes g' = nodes g"
proof (induction rows arbitrary: g c)
  case Nil
  then show ?case by simp
next
  case (Cons row rows)
  show ?case
  proof (cases "merge_rel lib kind pat row (Inr (g, c))")
    case (Inl e)
    with Cons.prems show ?thesis by (simp add: fold_merge_rel_Inl)
  next
    case (Inr p)
    obtain g1 c1 where p: "p = (g1, c1)" by (cases p)
    from Inr p merge_rel_cases have "nodes g1 = nodes g" by blast
    moreover from Cons.prems Inr p have "fold (merge_rel lib kind pat) rows (Inr (g1, c1)) = Inr (g', c')"
      by simp
    then have "nodes g' = nodes g1" by (rule Cons.IH)
    ultimately show ?thesis by simp
  qed
qed

lemma fold_merge_rel_endpoints:
  assumes "fold (merge_rel lib kind pat) rows (Inr (g, c)) = Inr (g', c')"
    and "\<forall>row \<in> set rows. node_id (fst row) \<in> node_ids g \<and> node_id (snd row) \<in> node_ids g"
    and "endpoints_exist g"
  shows "endpoints_exist g'"
  using assms
proof (induction rows arbitrary: g c)
  case Nil
  then show ?case by simp
next
  case (Cons row rows)
  show ?case
  proof (cases "merge_rel lib kind pat row (Inr (g, c))")
    case (Inl e)
    with Cons.prems show ?thesis by (simp add: fold_merge_rel_Inl)
  next
    case (Inr p)
    obtain g1 c1 where p: "p = (g1, c1)" by (cases p)
    from Inr p merge_rel_cases [of lib kind pat row g c g1 c1]
    have n: "nodes g1 = nodes g" and
      r: "rels g1 = rels g \<or>
          rels g1 = rels g @ [\<lparr>rel_src = node_id (fst row), rel_kind = kind, rel_props = map_of pat,
                                rel_dst = node_id (snd row)\<rparr>]"
      by simp_all
    from n have ids: "node_ids g1 = node_ids g" by (simp add: node_ids_def)
    from r Cons.prems(2,3) ids have "endpoints_exist g1"
      by (auto simp: endpoints_exist_def)
    moreover from Cons.prems(1) Inr p
    have "fold (merge_rel lib kind pat) rows (Inr (g1, c1)) = Inr (g', c')" by simp
    moreover from Cons.prems(2) ids
    have "\<forall>row \<in> set rows. node_id (fst row) \<in> node_ids g1 \<and> node_id (snd row) \<in> node_ids g1"
      by simp
    ultimately show ?thesis using Cons.IH by blast
  qed
qed

lemma match_nodes_ids: "n \<in> set (match_nodes g L key v) \<Longrightarrow> node_id n \<in> node_ids g"
  by (auto simp: match_nodes_def node_ids_def)

lemma match_merge_nodes: "match_merge lib g p1 p2 kind pat = Inr (g', cnt) \<Longrightarrow> nodes g' = nodes g"
  by (auto simp: match_merge_def split: prod.splits dest: fold_merge_rel_nodes)

lemma match_merge_endpoints:
  assumes "match_merge lib g p1 p2 kind pat = Inr (g', cnt)" and "endpoints_exist g"
  shows "endpoints_exist g'"
proof -
  obtain L1 k1 v1 L2 k2 v2 where p: "p1 = (L1, k1, v1)" "p2 = (L2, k2, v2)"
    by (cases p1, cases p2) auto
  with assms(1) have
    "fold (merge_rel lib kind pat) (List.product (match_nodes g L1 k1 v1) (match_nodes g L2 k2 v2))
       (Inr (g, 0)) = Inr (g', cnt)"
    by (simp add: match_merge_def)
  moreover have "\<forall>row \<in> set (List.product (match_nodes g L1 k1 v1) (match_nodes g L2 k2 v2)).
      node_id (fst row) \<in> node_ids g \<and> node_id (snd row) \<in> node_ids g"
    by (auto dest: match_nodes_ids)
  ultimately show ?thesis using assms(2) by (rule fold_merge_rel_endpoints)
qed

lemma merge_node_endpoints:
  assumes "merge_node lib L key v d g = Inr g'" and "endpoints_exist g"
  shows "endpoints_exist g'"
  using merge_node_rels [OF assms(1)] merge_node_ids [OF assms(1)] assms(2)
  by (auto simp: endpoints_exist_def list_all_iff)

lemma step_endpoints: "step lib g g' \<Longrightarrow> endpoints_exist g \<Longrightarrow> endpoints_exist g'"
proof (induction rule: step.induct)
  case (node_merged L key v d g g')
  then show ?case by (rule merge_node_endpoints)
next
  case (rels_merged g p1 p2 kind pat g' cnt)
  then show ?case by (rule match_merge_endpoints)
next
  case (cleared g)
  show ?case by (simp add: clear_database_def endpoints_exist_def)
qed

lemma steps_endpoints: "rtranclp (step lib) g g' \<Longrightarrow> endpoints_exist g \<Longrightarrow> endpoints_exist g'"
  by (induction rule: rtranclp_induct) (auto intro: step_endpoints)

section \<open>Every function of the ingestion is a sequence of store transactions\<close>

lemma ingest_resource_step: "ingest_resource lib g r = Inr g' \<Longrightarrow> step lib g g'"
  by (auto simp: ingest_resource_def split: sum.splits intro: step.node_merged)

lemma resource_step_Inr:
  "ingest_resource lib g r = Inr g1 \<Longrightarrow> resource_step lib r (g, lg) = (g1, lg)"
  by (simp add: resource_step_def)

lemma resource_step_Inl:
  "ingest_resource lib g r = Inl e \<Longrightarrow>
   resource_step lib r (g, lg) = (g, lg @ [handled ''uniqueName'' r e])"
  by (simp add: resource_step_def)

lemma recipe_step_Inr:
  "ingest_recipe lib g r = Inr g1 \<Longrightarrow> recipe_step lib r (g, lg) = (g1, lg)"
  by (simp add: recipe_step_def)

lemma recipe_step_Inl:
  "ingest_recipe lib g r = Inl e \<Longrightarrow>
   recipe_step lib r (g, lg) = (g, lg @ [handled ''uniqueName'' r e])"
  by (simp add: recipe_step_def)

lemma weapon_step_Inr:
  "ingest_weapon lib st w = Inr st1 \<Longrightarrow> weapon_step lib w (st, lg) = (st1, lg)"
  by (simp add: weapon_step_def)

lemma weapon_step_Inl:
  "ingest_weapon lib st w = Inl e \<Longrightarrow>
   weapon_step lib w (st, lg) = (st, lg @ [handled ''name'' w e])"
  by (simp add: weapon_step_def)

lemma resources_steps:
  "rtranclp (step lib) g (fst (fold (resource_step lib) rs (g, lg)))"
proof (induction rs arbitrary: g lg)
  case Nil
  show ?case by simp
next
  case (Cons r rs)
  show ?case
  proof (cases "ingest_resource lib g r")
    case (Inl e)
    then show ?thesis using Cons.IH by (simp add: resource_step_Inl)
  next
    case (Inr g1)
    then have "step lib g g1" by (rule ingest_resource_step)
    moreover have "rtranclp (step lib) g1 (fst (fold (resource_step lib) rs (g1, lg)))"
      by (rule Cons.IH)
    ultimately show ?thesis using Inr by (simp add: resource_step_Inr)
  qed
qed

lemma ingest_resources_steps: "rtranclp (step lib) g (fst (ingest_resources lib g rs))"
  unfolding ingest_resources_def by (rule resources_steps)

lemma ingest_weapon_step: "ingest_weapon lib (g, cs) w = Inr (g', cs') \<Longrightarrow> step lib g g'"
  by (auto simp: ingest_weapon_def split: sum.splits intro: step.node_merged)

lemma weapons_steps:
  "rtranclp (step lib) g (fst (fst (fold (weapon_step lib) ws ((g, cs), lg))))"
proof (induction ws arbitrary: g cs lg)
  case Nil
  show ?case by simp
next
  case (Cons w ws)
  show ?case
  proof (cases "ingest_weapon lib (g, cs) w")
    case (Inl e)
    then show ?thesis using Cons.IH by (simp add: weapon_step_Inl)
  next
    case (Inr st)
    obtain g1 cs1 where st: "st = (g1, cs1)" by (cases st)
    with Inr have "step lib g g1" by (auto intro: ingest_weapon_step)
    moreover have "rtranclp (step lib) g1 (fst (fst (fold (weapon_step lib) ws ((g1, cs1), lg))))"
      by (rule Cons.IH)
    ultimately show ?thesis using Inr st by (simp add: weapon_step_Inr)
  qed
qed

lemma create_weapon_categories_steps:
  "rtranclp (step lib) g (fst (create_weapon_categories lib g cs))"
proof (induction cs arbitrary: g)
  case Nil
  show ?case by simp
next
  case (Cons c cs)
  show ?case
  proof (cases "merge_node lib Category ''name'' (JStr c) [] g")
    case (Inl e)
    then show ?thesis by simp
  next
    case g1: (Inr g1)
    then have s1: "step lib g g1" by (rule step.node_merged)
    show ?thesis
    proof (cases "match_merge lib g1 (Weapon, ''productCategory'', JStr c)
                    (Category, ''name'', JStr c) BELONGS_TO []")
      case (Inl e)
      with g1 s1 show ?thesis by simp
    next
      case (Inr p)
      obtain g2 cnt where p: "p = (g2, cnt)" by (cases p)
      with Inr have "step lib g1 g2" by (auto intro: step.rels_merged)
      with s1 have "rtranclp (step lib) g g2" by simp
      moreover have "rtranclp (step lib) g2 (fst (create_weapon_categories lib g2 cs))"
        by (rule Cons.IH)
      ultimately show ?thesis using g1 Inr p by simp
    qed
  qed
qed

lemma ingest_weapons_steps: "rtranclp (step lib) g (fst (ingest_weapons lib g ws))"
proof -
  obtain g1 cs lg where l: "weapons_loop lib g ws = ((g1, cs), lg)"
    by (cases "weapons_loop lib g ws") auto
  then have "rtranclp (step lib) g g1"
    using weapons_steps [of lib g ws "[]" "[]"] by (simp add: weapons_loop_def)
  moreover have "rtranclp (step lib) g1 (fst (create_weapon_categories lib g1 (set_order lib cs)))"
    by (rule create_weapon_categories_steps)
  ultimately show ?thesis using l by (auto simp: ingest_weapons_def split: prod.splits)
qed

lemma ingest_recipe_step: "ingest_recipe lib g r = Inr g' \<Longrightarrow> step lib g g'"
  by (auto simp: ingest_recipe_def split: sum.splits intro: step.node_merged)

lemma recipes_steps:
  "rtranclp (step lib) g (fst (fold (recipe_step lib) rs (g, lg)))"
proof (induction rs arbitrary: g lg)
  case Nil
  show ?case by simp
next
  case (Cons r rs)
  show ?case
  proof (cases "ingest_recipe lib g r")
    case (Inl e)
    then show ?thesis using Cons.IH by (simp add: recipe_step_Inl)
  next
    case (Inr g1)
    then have "step lib g g1" by (rule ingest_recipe_step)
    moreover have "rtranclp (step lib) g1 (fst (fold (recipe_step lib) rs (g1, lg)))"
      by (rule Cons.IH)
    ultimately show ?thesis using Inr by (simp add: recipe_step_Inr)
  qed
qed

lemma create_builds_steps: "create_builds lib g d = Inr g' \<Longrightarrow> rtranclp (step lib) g g'"
  unfolding create_builds_def Let_def
  by (auto split: if_splits sum.splits prod.splits
           intro: step.rels_merged rtranclp.rtrancl_into_rtrancl)

lemma create_requires_steps:
  "create_requires lib g ru ing = Inr g' \<Longrightarrow> rtranclp (step lib) g g'"
  unfolding create_requires_def
  by (auto split: if_splits sum.splits prod.splits intro: step.rels_merged)

lemma requires_loop_steps: "rtranclp (step lib) g (fst (requires_loop lib g ru ings))"
proof (induction ings arbitrary: g)
  case Nil
  show ?case by simp
next
  case (Cons ing ings)
  show ?case
  proof (cases "create_requires lib g ru ing")
    case (Inl e)
    then show ?thesis by simp
  next
    case (Inr g1)
    then have "rtranclp (step lib) g g1" by (rule create_requires_steps)
    moreover have "rtranclp (step lib) g1 (fst (requires_loop lib g1 ru ings))" by (rule Cons.IH)
    ultimately show ?thesis using Inr by simp
  qed
qed

lemma recipe_relationships_steps:
  "rtranclp (step lib) g (fst (recipe_relationships lib g r))"
proof (cases r)
  case (JObj d)
  show ?thesis
  proof (cases "create_builds lib g d")
    case (Inl e)
    with JObj show ?thesis by (simp add: recipe_relationships_def)
  next
    case (Inr g1)
    then have 1: "rtranclp (step lib) g g1" by (rule create_builds_steps)
    show ?thesis
    proof (cases "py_iter (dict_get d ''ingredients'' (JList []))")
      case (Inl e)
      with JObj Inr 1 show ?thesis by (simp add: recipe_relationships_def)
    next
      case ings: (Inr ings)
      have "rtranclp (step lib) g1
              (fst (requires_loop lib g1 (dict_get d ''uniqueName'' JNull) ings))"
        by (rule requires_loop_steps)
      with 1 JObj Inr ings show ?thesis by (simp add: recipe_relationships_def)
    qed
  qed
qed (simp_all add: recipe_relationships_def)

lemma create_recipe_relationships_steps:
  "rtranclp (step lib) g (fst (create_recipe_relationships lib g rs))"
proof (induction rs arbitrary: g)
  case Nil
  show ?case by simp
next
  case (Cons r rs)
  obtain g1 e where p: "recipe_relationships lib g r = (g1, e)"
    by (cases "recipe_relationships lib g r")
  with recipe_relationships_steps [of lib g r] have 1: "rtranclp (step lib) g g1" by simp
  show ?case
  proof (cases e)
    case None
    have "rtranclp (step lib) g1 (fst (create_recipe_relationships lib g1 rs))" by (rule Cons.IH)
    with 1 p None show ?thesis by simp
  next
    case (Some a)
    with 1 p show ?thesis by simp
  qed
qed

lemma ingest_recipes_steps: "rtranclp (step lib) g (fst (ingest_recipes lib g rs))"
proof -
  obtain g1 lg where l: "recipes_loop lib g rs = (g1, lg)" by (cases "recipes_loop lib g rs")
  then have "rtranclp (step lib) g g1"
    using recipes_steps [of lib g rs "[]"] by (simp add: recipes_loop_def)
  moreover have "rtranclp (step lib) g1 (fst (create_recipe_relationships lib g1 rs))"
    by (rule create_recipe_relationships_steps)
  ultimately show ?thesis using l by (auto simp: ingest_recipes_def split: prod.splits)
qed

lemma ingest_all_steps:
  "rtranclp (step lib) g (fst (ingest_all lib clear g resources weapons recipes))"
proof -
  let ?g0 = "if clear then clear_database g else g"
  have 0: "rtranclp (step lib) g ?g0" by (auto intro: step.cleared)
  obtain g1 l1 where r: "ingest_resources lib ?g0 resources = (g1, l1)"
    by (cases "ingest_resources lib ?g0 resources")
  with ingest_resources_steps [of lib ?g0 resources] have 1: "rtranclp (step lib) ?g0 g1" by simp
  obtain g2 l2 e2 where w: "ingest_weapons lib g1 weapons = (g2, l2, e2)"
    by (cases "ingest_weapons lib g1 weapons")
  with ingest_weapons_steps [of lib g1 weapons] have 2: "rtranclp (step lib) g1 g2" by simp
  obtain g3 l3 e3 where c: "ingest_recipes lib g2 recipes = (g3, l3, e3)"
    by (cases "ingest_recipes lib g2 recipes")
  with ingest_recipes_steps [of lib g2 recipes] have 3: "rtranclp (step lib) g2 g3" by simp
  from 0 1 2 have 02: "rtranclp (step lib) g g2" by simp
  with 3 have 03: "rtranclp (step lib) g g3" by simp
  show ?thesis
  proof (cases e2)
    case None
    with r w c 03 show ?thesis by (simp add: ingest_all_def)
  next
    case (Some e)
    with r w 02 show ?thesis by (simp add: ingest_all_def)
  qed
qed

section \<open>Relationships and their end nodes\<close>

text \<open>
  C9. In a store where every relationship has its two end nodes, they still have them
  after any sequence of transactions of the kinds the source issues; a run of
  \<^verbatim>\<open>ingest_all\<close> is such a sequence, so its store has the property as well.
\<close>

theorem relationships_keep_their_endpoints:
  assumes "endpoints_exist g"
  shows "(\<forall>g'. rtranclp (step lib) g g' \<longrightarrow> endpoints_exist g')
         \<and> rtranclp (step lib) g (fst (ingest_all lib clear g resources weapons recipes))
         \<and> endpoints_exist (fst (ingest_all lib clear g resources weapons recipes))"
proof -
  have 1: "\<forall>g'. rtranclp (step lib) g g' \<longrightarrow> endpoints_exist g'"
    using assms by (blast intro: steps_endpoints)
  moreover have "rtranclp (step lib) g (fst (ingest_all lib clear g resources weapons recipes))"
    by (rule ingest_all_steps)
  ultimately show ?thesis by blast
qed

theorem relationships_keep_their_endpoints_witness:
  "endpoints_exist \<lparr>nodes = [], rels = []\<rparr>
   \<and> endpoints_exist (fst (ingest_all plain_lib False \<lparr>nodes = [], rels = []\<rparr>
        [scenario_resource] [scenario_weapon] [JObj scenario_recipe]))
   \<and> map (\<lambda>r. (rel_src r, rel_kind r, rel_dst r))
        (rels (fst (ingest_all plain_lib False \<lparr>nodes = [], rels = []\<rparr>
           [scenario_resource] [scenario_weapon] [JObj scenario_recipe]))) =
      [(2, BELONGS_TO, 3), (4, BUILDS, 2), (4, REQUIRES, 1)]"
proof -
  have e: "endpoints_exist \<lparr>nodes = [], rels = []\<rparr>" by (simp add: endpoints_exist_def)
  have "map (\<lambda>r. (rel_src r, rel_kind r, rel_dst r))
        (rels (fst (ingest_all plain_lib False \<lparr>nodes = [], rels = []\<rparr>
           [scenario_resource] [scenario_weapon] [JObj scenario_recipe]))) =
      [(2, BELONGS_TO, 3), (4, BUILDS, 2), (4, REQUIRES, 1)]"
    by code_simp
  with e relationships_keep_their_endpoints [OF e, of plain_lib False
      "[scenario_resource]" "[scenario_weapon]" "[JObj scenario_recipe]"]
  show ?thesis by blast
qed

section \<open>Records that fail validation\<close>








section \<open>Resolution of the recipe relationships\<close>






section \<open>The properties written for a node\<close>

lemma map_of_filter_Some:
  "map_of xs k = Some v \<Longrightarrow> P (k, v) \<Longrightarrow> map_of (filter P xs) k = Some v"
  by (induction xs) (auto split: if_splits)

lemma map_of_filter_keys:
  "\<forall>v. \<not> P (k, v) \<Longrightarrow> map_of (filter P xs) k = None"
  by (induction xs) auto

lemma model_dump_excluded: "k \<in> set exclude \<Longrightarrow> map_of (model_dump exclude m) k = None"
  unfolding model_dump_def by (rule map_of_filter_keys) simp

lemma model_dump_Some:
  "map_of m k = Some v \<Longrightarrow> k \<notin> set exclude \<Longrightarrow> v \<noteq> JNull \<Longrightarrow>
   map_of (model_dump exclude m) k = Some v"
  unfolding model_dump_def by (rule map_of_filter_Some) simp_all

lemma model_dump_no_null: "(k, v) \<in> set (model_dump exclude m) \<Longrightarrow> v \<noteq> JNull"
  by (auto simp: model_dump_def)

lemma failing_Nil:
  "concat (map (\<lambda>(name, r). case r of Inl n \<Rightarrow> [n] | Inr v \<Rightarrow> []) (map (\<lambda>f. (fst f, F f)) flds)) = []
   \<longleftrightarrow> (\<forall>f \<in> set flds. \<exists>v. F f = Inr v)"
  by (induction flds) (auto split: sum.splits)

lemma declared_values:
  "\<forall>f \<in> set flds. \<exists>v. F f = Inr v \<Longrightarrow>
   concat (map (\<lambda>(name, r). case r of Inl n \<Rightarrow> [] | Inr v \<Rightarrow> [(name, v)]) (map (\<lambda>f. (fst f, F f)) flds))
   = map (\<lambda>f. (fst f, case F f of Inr v \<Rightarrow> v | Inl n \<Rightarrow> JNull)) flds"
  by (induction flds) (auto split: sum.splits)

lemma validate_model_Inr:
  assumes "validate_model lib flds d = Inr m"
  shows "\<forall>f \<in> set flds. \<exists>v. validate_field lib d f = Inr v"
    and "m = map (\<lambda>f. (fst f, case validate_field lib d f of Inr v \<Rightarrow> v | Inl n \<Rightarrow> JNull)) flds
             @ filter (\<lambda>(k, v). k \<notin> set (map fst flds)) d"
proof -
  from assms have
    1: "concat (map (\<lambda>(name, r). case r of Inl n \<Rightarrow> [n] | Inr v \<Rightarrow> [])
          (map (\<lambda>f. (fst f, validate_field lib d f)) flds)) = []"
    and 2: "m = concat (map (\<lambda>(name, r). case r of Inl n \<Rightarrow> [] | Inr v \<Rightarrow> [(name, v)])
          (map (\<lambda>f. (fst f, validate_field lib d f)) flds))
        @ filter (\<lambda>(k, v). k \<notin> set (map fst flds)) d"
    by (auto simp: validate_model_def Let_def split: if_splits)
  from 1 show 3: "\<forall>f \<in> set flds. \<exists>v. validate_field lib d f = Inr v"
    by (simp only: failing_Nil)
  from 2 declared_values [OF 3] show
    "m = map (\<lambda>f. (fst f, case validate_field lib d f of Inr v \<Rightarrow> v | Inl n \<Rightarrow> JNull)) flds
             @ filter (\<lambda>(k, v). k \<notin> set (map fst flds)) d"
    by simp
qed

lemma map_of_declared:
  "f \<in> set flds \<Longrightarrow> distinct (map fst flds) \<Longrightarrow>
   map_of (map (\<lambda>f. (fst f, G f)) flds) (fst f) = Some (G f)"
  by (induction flds) (auto simp: rev_image_eqI)

lemma map_of_declared_None:
  "k \<notin> set (map fst flds) \<Longrightarrow> map_of (map (\<lambda>f. (fst f, G f)) flds) k = None"
  by (induction flds) auto

lemma validated_field:
  assumes "validate_model lib flds d = Inr m" and "f \<in> set flds" and "distinct (map fst flds)"
  shows "\<exists>v. validate_field lib d f = Inr v \<and> map_of m (fst f) = Some v"
proof -
  from validate_model_Inr(1) [OF assms(1)] assms(2)
  obtain v where v: "validate_field lib d f = Inr v" by blast
  have "map_of m (fst f) = Some (case validate_field lib d f of Inr v \<Rightarrow> v | Inl n \<Rightarrow> JNull)"
    by (subst validate_model_Inr(2) [OF assms(1)]) (simp add: map_of_declared [OF assms(2,3)])
  with v show ?thesis by simp
qed

lemma map_of_filter_other_keys:
  "k \<notin> S \<Longrightarrow> map_of (filter (\<lambda>(k', v). k' \<notin> S) d) k = map_of d k"
  by (induction d) auto

lemma validated_extra:
  assumes "validate_model lib flds d = Inr m" and "k \<notin> set (map fst flds)"
  shows "map_of m k = map_of d k"
  by (subst validate_model_Inr(2) [OF assms(1)])
     (simp only: map_of_append map_add_def map_of_declared_None [OF assms(2)]
        map_of_filter_other_keys [OF assms(2)] option.case)

lemma required_str_field:
  assumes "validate_field lib d (name, TStr, True) = Inr v"
  shows "\<exists>s. v = JStr s \<and> map_of d name = Some (JStr s)"
  using assms by (auto simp: convert_def split: option.splits if_splits json.splits)

lemma set_props_written:
  "map_of d k = Some v \<Longrightarrow> v \<noteq> JNull \<Longrightarrow> set_props ps d k = Some v"
  by (simp add: set_props_def)

lemma set_props_other: "map_of d k = None \<Longrightarrow> set_props ps d k = ps k"
  by (simp add: set_props_def)

lemma merge_node_written:
  assumes "merge_node lib L key v d g = Inr g'"
  shows "\<exists>n \<in> set (nodes g'). node_label n = L \<and>
           (\<forall>k x. map_of d k = Some x \<and> x \<noteq> JNull \<longrightarrow> node_props n k = Some x)"
  using assms
proof (cases rule: merge_node_cases)
  case created
  then show ?thesis by (auto simp: set_props_written)
next
  case updated
  then obtain n where n: "n \<in> set (nodes g)" "matches L key v n"
    by (auto simp: match_nodes_def filter_empty_conv)
  let ?n = "n\<lparr>node_props := set_props (node_props n) d\<rparr>"
  from n updated(2) have "?n \<in> set (nodes g')" by force
  moreover from n(2) have "node_label ?n = L" by (simp add: matches_def)
  moreover have "\<forall>k x. map_of d k = Some x \<and> x \<noteq> JNull \<longrightarrow> node_props ?n k = Some x"
    by (simp add: set_props_written)
  ultimately show ?thesis by blast
qed

lemma RecipeNode_distinct: "distinct (map fst RecipeNode)"
  by (simp add: RecipeNode_def)

text \<open>
  C2 (as amended). For a record that validates as a recipe, the properties written with
  the node have no \<^verbatim>\<open>uniqueName\<close> (it is the key of the merge), no \<^verbatim>\<open>ingredients\<close> and no
  \<^verbatim>\<open>secretIngredients\<close>; they have the \<^verbatim>\<open>resultType\<close> of the record; they have every
  other field of the validated model that is not \<^verbatim>\<open>None\<close>, and so every extra key of
  the record that is not \<^verbatim>\<open>None\<close>; and after the upsert a Recipe node of the store
  carries all of them.
\<close>

theorem recipe_node_properties:
  assumes "validate_model lib RecipeNode d = Inr recipe"
  shows "map_of (recipe_props recipe) ''uniqueName'' = None
       \<and> map_of (recipe_props recipe) ''ingredients'' = None
       \<and> map_of (recipe_props recipe) ''secretIngredients'' = None
       \<and> (\<exists>s. map_of d ''resultType'' = Some (JStr s) \<and>
              map_of (recipe_props recipe) ''resultType'' = Some (JStr s))
       \<and> (\<forall>k v. k \<notin> {''uniqueName'', ''ingredients'', ''secretIngredients''} \<and>
                map_of recipe k = Some v \<and> v \<noteq> JNull \<longrightarrow>
                map_of (recipe_props recipe) k = Some v)
       \<and> (\<forall>k v. k \<notin> set (map fst RecipeNode) \<and> map_of d k = Some v \<and> v \<noteq> JNull \<longrightarrow>
                map_of (recipe_props recipe) k = Some v)
       \<and> (\<forall>g g'. ingest_recipe lib g (JObj d) = Inr g' \<longrightarrow>
            (\<exists>n \<in> set (nodes g'). node_label n = Recipe \<and>
               (\<forall>k v. map_of (recipe_props recipe) k = Some v \<longrightarrow> node_props n k = Some v)))"
proof (intro conjI allI impI)
  show "map_of (recipe_props recipe) ''uniqueName'' = None"
    by (simp add: recipe_props_def model_dump_excluded)
  show "map_of (recipe_props recipe) ''ingredients'' = None"
    by (simp add: recipe_props_def model_dump_excluded)
  show "map_of (recipe_props recipe) ''secretIngredients'' = None"
    by (simp add: recipe_props_def model_dump_excluded)
next
  have "(''resultType'', TStr, True) \<in> set RecipeNode" by (simp add: RecipeNode_def)
  from validated_field [OF assms this RecipeNode_distinct]
  obtain v where v: "validate_field lib d (''resultType'', TStr, True) = Inr v"
    "map_of recipe ''resultType'' = Some v" by auto
  from required_str_field [OF v(1)] obtain s where
    s: "v = JStr s" "map_of d ''resultType'' = Some (JStr s)" by blast
  from v(2) s(1) have "map_of (recipe_props recipe) ''resultType'' = Some (JStr s)"
    by (simp add: recipe_props_def model_dump_Some)
  with s(2) show "\<exists>s. map_of d ''resultType'' = Some (JStr s) \<and>
              map_of (recipe_props recipe) ''resultType'' = Some (JStr s)" by blast
next
  fix k v
  assume "k \<notin> {''uniqueName'', ''ingredients'', ''secretIngredients''} \<and>
                map_of recipe k = Some v \<and> v \<noteq> JNull"
  then show "map_of (recipe_props recipe) k = Some v"
    by (simp add: recipe_props_def model_dump_Some)
next
  fix k v
  assume a: "k \<notin> set (map fst RecipeNode) \<and> map_of d k = Some v \<and> v \<noteq> JNull"
  then have "map_of recipe k = Some v" using validated_extra [OF assms, of k] by simp
  moreover from a have "k \<notin> set [''uniqueName'', ''ingredients'', ''secretIngredients'']"
    by (auto simp: RecipeNode_def)
  moreover from a have "v \<noteq> JNull" by simp
  ultimately show "map_of (recipe_props recipe) k = Some v"
    unfolding recipe_props_def by (rule model_dump_Some)
next
  fix g g'
  assume "ingest_recipe lib g (JObj d) = Inr g'"
  with assms have "merge_node lib Recipe ''uniqueName'' (attr recipe ''uniqueName'')
      (recipe_props recipe) g = Inr g'"
    by (simp add: ingest_recipe_def construct_def)
  from merge_node_written [OF this] obtain n where
    n: "n \<in> set (nodes g')" "node_label n = Recipe"
      "\<forall>k x. map_of (recipe_props recipe) k = Some x \<and> x \<noteq> JNull \<longrightarrow> node_props n k = Some x"
    by blast
  have "\<forall>k v. map_of (recipe_props recipe) k = Some v \<longrightarrow> node_props n k = Some v"
  proof (intro allI impI)
    fix k v
    assume kv: "map_of (recipe_props recipe) k = Some v"
    then have "(k, v) \<in> set (recipe_props recipe)" by (rule map_of_SomeD)
    then have "v \<noteq> JNull" unfolding recipe_props_def by (rule model_dump_no_null)
    with kv n(3) show "node_props n k = Some v" by blast
  qed
  with n(1,2) show "\<exists>n \<in> set (nodes g'). node_label n = Recipe \<and>
      (\<forall>k v. map_of (recipe_props recipe) k = Some v \<longrightarrow> node_props n k = Some v)"
    by blast
qed

theorem recipe_node_properties_witness:
  "validate_model plain_lib RecipeNode (scenario_recipe @ [(''tradable'', JBool True)]) =
     Inr ([(''uniqueName'', JStr ''R1''), (''resultType'', JStr ''W1''),
           (''alwaysAvailable'', JNull), (''buildPrice'', JNull), (''buildTime'', JNull),
           (''codexSecret'', JNull), (''consumeOnUse'', JNull), (''excludeFromCodex'', JNull),
           (''ingredients'', JList [JObj [(''ItemType'', JStr ''Res1''), (''ItemCount'', JInt 5)]]),
           (''num'', JInt 2), (''primeSellingPrice'', JNull), (''secretIngredients'', JNull),
           (''skipBuildTimePrice'', JNull), (''tradable'', JBool True)])
   \<and> recipe_props [(''uniqueName'', JStr ''R1''), (''resultType'', JStr ''W1''),
           (''alwaysAvailable'', JNull), (''buildPrice'', JNull), (''buildTime'', JNull),
           (''codexSecret'', JNull), (''consumeOnUse'', JNull), (''excludeFromCodex'', JNull),
           (''ingredients'', JList [JObj [(''ItemType'', JStr ''Res1''), (''ItemCount'', JInt 5)]]),
           (''num'', JInt 2), (''primeSellingPrice'', JNull), (''secretIngredients'', JNull),
           (''skipBuildTimePrice'', JNull), (''tradable'', JBool True)] =
     [(''resultType'', JStr ''W1''), (''num'', JInt 2), (''tradable'', JBool True)]
   \<and> map_of (recipe_props [(''uniqueName'', JStr ''R1''), (''resultType'', JStr ''W1''),
           (''alwaysAvailable'', JNull), (''buildPrice'', JNull), (''buildTime'', JNull),
           (''codexSecret'', JNull), (''consumeOnUse'', JNull), (''excludeFromCodex'', JNull),
           (''ingredients'', JList [JObj [(''ItemType'', JStr ''Res1''), (''ItemCount'', JInt 5)]]),
           (''num'', JInt 2), (''primeSellingPrice'', JNull), (''secretIngredients'', JNull),
           (''skipBuildTimePrice'', JNull), (''tradable'', JBool True)]) ''ingredients'' = None"
proof -
  have v: "validate_model plain_lib RecipeNode (scenario_recipe @ [(''tradable'', JBool True)]) =
     Inr ([(''uniqueName'', JStr ''R1''), (''resultType'', JStr ''W1''),
           (''alwaysAvailable'', JNull), (''buildPrice'', JNull), (''buildTime'', JNull),
           (''codexSecret'', JNull), (''consumeOnUse'', JNull), (''excludeFromCodex'', JNull),
           (''ingredients'', JList [JObj [(''ItemType'', JStr ''Res1''), (''ItemCount'', JInt 5)]]),
           (''num'', JInt 2), (''primeSellingPrice'', JNull), (''secretIngredients'', JNull),
           (''skipBuildTimePrice'', JNull), (''tradable'', JBool True)])"
    by code_simp
  have p: "recipe_props [(''uniqueName'', JStr ''R1''), (''resultType'', JStr ''W1''),
           (''alwaysAvailable'', JNull), (''buildPrice'', JNull), (''buildTime'', JNull),
           (''codexSecret'', JNull), (''consumeOnUse'', JNull), (''excludeFromCodex'', JNull),
           (''ingredients'', JList [JObj [(''ItemType'', JStr ''Res1''), (''ItemCount'', JInt 5)]]),
           (''num'', JInt 2), (''primeSellingPrice'', JNull), (''secretIngredients'', JNull),
           (''skipBuildTimePrice'', JNull), (''tradable'', JBool True)] =
     [(''resultType'', JStr ''W1''), (''num'', JInt 2), (''tradable'', JBool True)]"
    by code_simp
  from recipe_node_properties [OF v] v p show ?thesis by blast
qed

text \<open>
  C2 as stated fails: the node of the scenario's recipe is stored with its
  \<^verbatim>\<open>resultType\<close> as a property (and without its \<^verbatim>\<open>ingredients\<close>).
\<close>

theorem result_type_is_stored_counterexample:
  "map (\<lambda>n. (node_label n, node_props n ''uniqueName'', node_props n ''resultType'',
              node_props n ''ingredients''))
     (nodes (fst (recipes_loop plain_lib \<lparr>nodes = [], rels = []\<rparr> [JObj scenario_recipe]))) =
   [(Recipe, Some (JStr ''R1''), Some (JStr ''W1''), None)]"
  by code_simp

section \<open>Repeating a sequence of overwriting operations\<close>





section \<open>Node upserts\<close>

lemma graph_eqI: "nodes g = nodes h \<Longrightarrow> rels g = rels h \<Longrightarrow> g = (h :: graph)"
  by simp








lemma upd_label: "node_label (upd L op n) = node_label n"
  by (simp add: upd_def)




















section \<open>The loops as sequences of upserts\<close>

















lemma fold_map_filter_Cons:
  "fold ap (List.map_filter f (r # rs)) g =
     fold ap (List.map_filter f rs) (case f r of None \<Rightarrow> g | Some op \<Rightarrow> ap op g)"
  by (simp split: option.splits)












section \<open>Upserts that find their nodes\<close>








section \<open>What each statement leaves alone\<close>






section \<open>Relationship merges that find their relationships\<close>













section \<open>The relationship pass, run again\<close>













section \<open>The categories, run again\<close>














section \<open>The whole run, run again\<close>














section \<open>What a relationship merge adds\<close>










section \<open>The loops of the relationship pass, record by record\<close>





section \<open>The BUILDS relationship of a recipe\<close>








section \<open>The REQUIRES relationships of a recipe\<close>








section \<open>Creating a relationship again\<close>







section \<open>The nodes of the records that validate\<close>











end
